theory Spec2Isabelle
  imports Complex_Main "HOL-Library.Word"
begin

section \<open>Values exchanged with the peer\<close>

text \<open>
  The client reads its commands with \<^verbatim>\<open>json.loads\<close>, so the window and action of a
  command are whatever JSON value the peer sent. \<open>JFloat\<close> stands for the finite floats,
  and \<open>JObj\<close> holds the items of a dict, each key once.
\<close>

datatype json =
    JNull
  | JBool bool
  | JInt int
  | JFloat real
  | JStr string
  | JArr "json list"
  | JObj "(string \<times> json) list"

text \<open>Python's truth value of a decoded JSON value (\<^verbatim>\<open>command == 'execute' and window\<close>).\<close>

fun truthy :: "json \<Rightarrow> bool" where
  "truthy JNull = False"
| "truthy (JBool b) = b"
| "truthy (JInt i) = (i \<noteq> 0)"
| "truthy (JFloat r) = (r \<noteq> 0)"
| "truthy (JStr s) = (s \<noteq> [])"
| "truthy (JArr xs) = (xs \<noteq> [])"
| "truthy (JObj kvs) = (kvs \<noteq> [])"

text \<open>
  An f-string renders a \<^verbatim>\<open>str\<close> as itself; for every other value it calls the
  built-in \<^verbatim>\<open>format\<close>, which is taken as the parameter \<open>fmt\<close>.
\<close>

definition fstring :: "(json \<Rightarrow> string) \<Rightarrow> json \<Rightarrow> string" where
  "fstring fmt v = (case v of JStr w \<Rightarrow> w | _ \<Rightarrow> fmt v)"

section \<open>StateManager (wowsync-client.py)\<close>

text \<open>
  The clock \<^verbatim>\<open>time.time()\<close> is an input: every operation that reads it takes the
  reading as its argument \<open>now\<close>, in seconds.
\<close>

record StateManager =
  current_state :: string
  last_action_time :: real
  action_cooldown :: real
  idle_timeout :: real
  active_window :: "json option"

definition StateManager_init :: StateManager where
  "StateManager_init =
     \<lparr>current_state = ''idle'', last_action_time = 0, action_cooldown = 2,
      idle_timeout = 10, active_window = None\<rparr>"

definition can_execute_action :: "StateManager \<Rightarrow> real \<Rightarrow> bool" where
  "can_execute_action s now = (now - last_action_time s \<ge> action_cooldown s)"

definition set_active_window ::
  "(json \<Rightarrow> string) \<Rightarrow> StateManager \<Rightarrow> json \<Rightarrow> real \<Rightarrow> StateManager" where
  "set_active_window fmt s window_key now =
     s\<lparr>current_state := ''active_'' @ fstring fmt window_key,
       active_window := Some window_key,
       last_action_time := now\<rparr>"

definition set_idle :: "StateManager \<Rightarrow> StateManager" where
  "set_idle s = s\<lparr>current_state := ''idle'', active_window := None\<rparr>"

definition is_idle :: "StateManager \<Rightarrow> bool" where
  "is_idle s = (current_state s = ''idle'')"

definition should_return_to_idle :: "StateManager \<Rightarrow> real \<Rightarrow> bool" where
  "should_return_to_idle s now =
     (if is_idle s then False else now - last_action_time s \<ge> idle_timeout s)"

definition get_current_state :: "StateManager \<Rightarrow> string" where
  "get_current_state s = current_state s"

subsection \<open>Sequences of transitions\<close>

text \<open>
  A call of one of the two transitions; \<open>Set_active_window w t\<close> is a call of
  \<^verbatim>\<open>set_active_window(w)\<close> during which the clock read \<open>t\<close>.
\<close>

datatype call = Set_active_window json real | Set_idle

fun apply_call :: "(json \<Rightarrow> string) \<Rightarrow> StateManager \<Rightarrow> call \<Rightarrow> StateManager" where
  "apply_call fmt s (Set_active_window w t) = set_active_window fmt s w t"
| "apply_call fmt s Set_idle = set_idle s"

fun run_calls :: "(json \<Rightarrow> string) \<Rightarrow> StateManager \<Rightarrow> call list \<Rightarrow> StateManager" where
  "run_calls fmt s [] = s"
| "run_calls fmt s (c # cs) = run_calls fmt (apply_call fmt s c) cs"

text \<open>The clock reading of the most recent \<open>Set_active_window\<close> of a sequence, if any.\<close>

fun most_recent_active :: "call list \<Rightarrow> real option" where
  "most_recent_active [] = None"
| "most_recent_active (c # cs) =
     (case most_recent_active cs of
        Some t \<Rightarrow> Some t
      | None \<Rightarrow> (case c of Set_active_window w t \<Rightarrow> Some t | Set_idle \<Rightarrow> None))"

text \<open>The last call of a sequence, if any.\<close>

fun last_call :: "call list \<Rightarrow> call option" where
  "last_call [] = None"
| "last_call [c] = Some c"
| "last_call (c # d # cs) = last_call (d # cs)"

section \<open>Frame codec (send_message, the read loops)\<close>

text \<open>
  A frame carries the bytes of the message, \<^verbatim>\<open>message.encode('utf-8')\<close> on the way
  out and \<^verbatim>\<open>message_data\<close> before \<^verbatim>\<open>.decode('utf-8')\<close> on the way in.
\<close>

type_synonym byte = "8 word"

datatype py_error = OverflowError | IncompleteReadError | TypeError

text \<open>\<^verbatim>\<open>n.to_bytes(4, byteorder='big')\<close> of a length: it raises when four bytes are too few.\<close>

definition to_bytes4 :: "nat \<Rightarrow> py_error + byte list" where
  "to_bytes4 n =
     (if n < 2 ^ 32
      then Inr [word_of_nat (n div 2 ^ 24), word_of_nat (n div 2 ^ 16),
                word_of_nat (n div 2 ^ 8), word_of_nat n]
      else Inl OverflowError)"

text \<open>\<^verbatim>\<open>int.from_bytes(bs, byteorder='big')\<close>.\<close>

definition from_bytes :: "byte list \<Rightarrow> nat" where
  "from_bytes bs = foldl (\<lambda>acc b. acc * 256 + unat b) 0 bs"

text \<open>
  \<^verbatim>\<open>reader.readexactly(n)\<close> on a stream that delivers the bytes \<open>stream\<close> and is then
  at its end: the first \<open>n\<close> bytes and the rest of the stream, or IncompleteReadError.
\<close>

definition readexactly :: "nat \<Rightarrow> byte list \<Rightarrow> py_error + (byte list \<times> byte list)" where
  "readexactly n stream =
     (if n \<le> length stream then Inr (take n stream, drop n stream)
      else Inl IncompleteReadError)"

text \<open>What \<^verbatim>\<open>send_message\<close> and \<^verbatim>\<open>send_to_all_clients\<close> hand to \<^verbatim>\<open>writer.write\<close>.\<close>

definition frame :: "byte list \<Rightarrow> py_error + byte list" where
  "frame message_bytes =
     (case to_bytes4 (length message_bytes) of
        Inl e \<Rightarrow> Inl e
      | Inr length_bytes \<Rightarrow> Inr (length_bytes @ message_bytes))"

text \<open>
  One pass of the read loop up to \<^verbatim>\<open>message_data\<close>: the message and the rest of
  the stream, the \<^verbatim>\<open>break\<close> on empty length data, or the exception raised.
\<close>

datatype read_result = Message "byte list" "byte list" | Break | Raised py_error

definition read_message :: "byte list \<Rightarrow> read_result" where
  "read_message stream =
     (case readexactly 4 stream of
        Inl e \<Rightarrow> Raised e
      | Inr (length_data, rest) \<Rightarrow>
          if length_data = [] then Break
          else (case readexactly (from_bytes length_data) rest of
                  Inl e \<Rightarrow> Raised e
                | Inr (message_data, rest') \<Rightarrow> Message message_data rest'))"

section \<open>ActionHandler and the command handler (wowsync-client.py)\<close>

text \<open>
  What the handler sees of the machine it runs on: the keys of \<^verbatim>\<open>active_windows\<close>
  and of \<^verbatim>\<open>actions_config\<close>, whether moving and clicking the mouse on a window
  succeeds, and whether the key presses of an action run without an exception.
\<close>

record world =
  window_keys :: "string list"
  action_names :: "string list"
  mouse_ok :: "string \<Rightarrow> bool"
  keys_ok :: "string \<Rightarrow> bool"

text \<open>
  \<^verbatim>\<open>window_key not in self.active_windows\<close> hashes the key, which raises TypeError for
  a list or a dict; the keys of the dict are strings, so no other value is among them.
\<close>

fun focus_window :: "world \<Rightarrow> json \<Rightarrow> py_error + bool" where
  "focus_window wd (JArr xs) = Inl TypeError"
| "focus_window wd (JObj kvs) = Inl TypeError"
| "focus_window wd (JStr w) =
     (if w \<notin> set (window_keys wd) then Inr False else Inr (mouse_ok wd w))"
| "focus_window wd v = Inr False"

text \<open>
  The rest of \<^verbatim>\<open>execute_action\<close> once the window has the focus: the test
  \<^verbatim>\<open>action_name not in self.actions_config\<close>, then the key presses inside
  \<^verbatim>\<open>try\<close>.
\<close>

fun run_action :: "world \<Rightarrow> json \<Rightarrow> py_error + bool" where
  "run_action wd (JArr xs) = Inl TypeError"
| "run_action wd (JObj kvs) = Inl TypeError"
| "run_action wd (JStr a) =
     (if a \<notin> set (action_names wd) then Inr False else Inr (keys_ok wd a))"
| "run_action wd v = Inr False"

definition execute_action :: "world \<Rightarrow> json \<Rightarrow> json \<Rightarrow> py_error + bool" where
  "execute_action wd window_key action_name =
     (case focus_window wd window_key of
        Inl e \<Rightarrow> Inl e
      | Inr focused \<Rightarrow> if \<not> focused then Inr False else run_action wd action_name)"


text \<open>\<^verbatim>\<open>data.get(k, default)\<close> on the items of a dict.\<close>

definition dict_get :: "(string \<times> json) list \<Rightarrow> string \<Rightarrow> json \<Rightarrow> json" where
  "dict_get kvs k dflt = (case map_of kvs k of None \<Rightarrow> dflt | Some v \<Rightarrow> v)"

definition cooldown_response :: "json \<Rightarrow> json \<Rightarrow> json" where
  "cooldown_response window action =
     JObj [(''status'', JStr ''cooldown''), (''window'', window), (''action'', action)]"

definition action_response :: "bool \<Rightarrow> json \<Rightarrow> json \<Rightarrow> string \<Rightarrow> json" where
  "action_response success window action state =
     JObj [(''status'', JStr (if success then ''success'' else ''error'')),
           (''window'', window), (''action'', action), (''state'', JStr state)]"

text \<open>
  \<^verbatim>\<open>handle_server_message\<close>. \<open>loads\<close> is \<^verbatim>\<open>json.loads\<close>, \<open>None\<close> where it raises;
  \<open>t_check\<close> and \<open>t_set\<close> are the clock readings of \<^verbatim>\<open>can_execute_action\<close> and
  of \<^verbatim>\<open>set_active_window\<close>. The result is the state afterwards and the response
  passed to \<^verbatim>\<open>send_message\<close>, \<open>None\<close> when it is not called. Every exception ends in
  the handler's own \<^verbatim>\<open>except\<close>, which logs it.
\<close>

definition handle_server_message ::
  "(string \<Rightarrow> json option) \<Rightarrow> (json \<Rightarrow> string) \<Rightarrow> world \<Rightarrow> StateManager \<Rightarrow> string \<Rightarrow>
     real \<Rightarrow> real \<Rightarrow> StateManager \<times> json option" where
  "handle_server_message loads fmt wd s message t_check t_set =
     (case loads message of
        None \<Rightarrow> (s, None)
      | Some (JObj kvs) \<Rightarrow>
          (let command = dict_get kvs ''command'' JNull;
               window = dict_get kvs ''window'' JNull;
               action = dict_get kvs ''action'' (JStr ''f1_action'')
           in if command = JStr ''execute'' \<and> truthy window then
                if \<not> can_execute_action s t_check
                then (s, Some (cooldown_response window action))
                else
                  (let s' = set_active_window fmt s window t_set
                   in case execute_action wd window action of
                        Inl e \<Rightarrow> (s', None)
                      | Inr success \<Rightarrow>
                          (s', Some (action_response success window action
                                       (get_current_state s'))))
              else (s, None))
      | Some v \<Rightarrow> (s, None))"

section \<open>IdleManager (wowsync-client.py)\<close>

text \<open>
  One pass of the loop of \<^verbatim>\<open>start_idle_mode\<close> runs in an environment: the clock
  reading, whether focusing the window succeeds, and the transitions that the command
  handler makes while the loop is suspended, first in the sleep after the focus, then in
  the idle action and the sleep that ends the pass.
\<close>

record idle_env =
  clock :: real
  focus_ok :: bool
  focus_sleep_calls :: "call list"
  cycle_sleep_calls :: "call list"

text \<open>
  The pass takes the state and \<^verbatim>\<open>current_window_index\<close>, and returns them with the
  window it selected, if it selected one, and whether the idle action ran on it.
\<close>

definition idle_iteration ::
  "(json \<Rightarrow> string) \<Rightarrow> string list \<Rightarrow> idle_env \<Rightarrow> StateManager \<times> nat \<Rightarrow>
     (StateManager \<times> nat) \<times> (string \<times> bool) list" where
  "idle_iteration fmt windows e = (\<lambda>(s, idx).
     let s1 = (if should_return_to_idle s (clock e) then set_idle s else s)
     in if is_idle s1 \<and> windows \<noteq> [] then
          (let window_key = windows ! (idx mod length windows);
               s2 = (if focus_ok e then run_calls fmt s1 (focus_sleep_calls e) else s1);
               performed = (focus_ok e \<and> is_idle s2);
               idx' = (idx + 1) mod length windows
           in ((run_calls fmt s2 (cycle_sleep_calls e), idx'), [(window_key, performed)]))
        else ((run_calls fmt s1 (cycle_sleep_calls e), idx), []))"

fun idle_loop ::
  "(json \<Rightarrow> string) \<Rightarrow> string list \<Rightarrow> idle_env list \<Rightarrow> StateManager \<times> nat \<Rightarrow>
     (StateManager \<times> nat) \<times> (string \<times> bool) list" where
  "idle_loop fmt windows [] c = (c, [])"
| "idle_loop fmt windows (e # es) c =
     (case idle_iteration fmt windows e c of
        (c', sel) \<Rightarrow>
          (case idle_loop fmt windows es c' of (c'', sel') \<Rightarrow> (c'', sel @ sel')))"

text \<open>
  \<^verbatim>\<open>start_idle_mode\<close> on a new IdleManager, whose \<^verbatim>\<open>current_window_index\<close> is 0,
  for as many passes as there are environments before \<^verbatim>\<open>is_running\<close> is cleared.
\<close>

definition start_idle_mode ::
  "(json \<Rightarrow> string) \<Rightarrow> string list \<Rightarrow> idle_env list \<Rightarrow> StateManager \<Rightarrow>
     (StateManager \<times> nat) \<times> (string \<times> bool) list" where
  "start_idle_mode fmt windows es s = idle_loop fmt windows es (set_idle s, 0)"

section \<open>WowSyncServer.send_to_all_clients (wowsync-server.py)\<close>

text \<open>
  The \<^verbatim>\<open>for\<close> loop over \<^verbatim>\<open>self.clients\<close>, with \<open>write_ok c\<close> telling whether
  \<^verbatim>\<open>write\<close> and \<^verbatim>\<open>drain\<close> on client \<open>c\<close> pass without an exception. Its state is
  the registry, the clients written to and \<^verbatim>\<open>disconnected_clients\<close>.
\<close>

fun send_loop ::
  "('c \<Rightarrow> bool) \<Rightarrow> 'c list \<Rightarrow> 'c list \<times> 'c list \<times> 'c list \<Rightarrow> 'c list \<times> 'c list \<times> 'c list" where
  "send_loop write_ok [] st = st"
| "send_loop write_ok (c # rest) (clients, sent, disconnected_clients) =
     (if write_ok c
      then send_loop write_ok rest (clients, sent @ [c], disconnected_clients)
      else send_loop write_ok rest (clients, sent, disconnected_clients @ [c]))"

text \<open>The second loop: \<^verbatim>\<open>if client in self.clients: self.clients.remove(client)\<close>.\<close>

fun remove_disconnected :: "'c list \<Rightarrow> 'c list \<Rightarrow> 'c list" where
  "remove_disconnected [] clients = clients"
| "remove_disconnected (client # rest) clients =
     remove_disconnected rest (if client \<in> set clients then remove1 client clients else clients)"

text \<open>
  The whole broadcast: the registry afterwards and, per client written to, the frame it
  received; or the exception of \<^verbatim>\<open>to_bytes\<close>, which nothing catches.
\<close>

definition send_to_all_clients ::
  "('c \<Rightarrow> bool) \<Rightarrow> 'c list \<Rightarrow> byte list \<Rightarrow> py_error + ('c list \<times> ('c \<times> byte list) list)" where
  "send_to_all_clients write_ok clients message_bytes =
     (if clients = [] then Inr (clients, [])
      else case frame message_bytes of
             Inl e \<Rightarrow> Inl e
           | Inr data \<Rightarrow>
               (case send_loop write_ok clients (clients, [], []) of
                  (clients1, sent, disconnected_clients) \<Rightarrow>
                    Inr (remove_disconnected disconnected_clients clients1,
                         map (\<lambda>c. (c, data)) sent)))"

section \<open>AsyncClient.connect_to_server (wowsync-client.py)\<close>

text \<open>
  The network's answers, in the order the loop asks for them: \<^verbatim>\<open>open_connection\<close>
  returns or raises; a pass of the read loop reads a message, and \<^verbatim>\<open>self.connected\<close>
  is as given once it is handled (a failed \<^verbatim>\<open>send_message\<close> clears it), or
  \<^verbatim>\<open>readexactly\<close> raises IncompleteReadError or another exception.
\<close>

datatype net_event =
    Open_ok
  | Open_fails
  | Read_message string bool
  | Read_incomplete
  | Read_exception

text \<open>Where the loop is: about to open a connection, or about to read.\<close>

datatype loc = At_connect | At_read

datatype effect = Open_connection | Close_writer nat | Sleep nat | Handle_server_message string

text \<open>The writer is named by the number of the connection it belongs to.\<close>

record AsyncClient =
  connected :: bool
  writer :: "nat option"
  opened :: nat

definition AsyncClient_init :: AsyncClient where
  "AsyncClient_init = \<lparr>connected = False, writer = None, opened = 0\<rparr>"

text \<open>
  One answer of the network; \<open>None\<close> for an answer the loop did not ask for.
  \<^verbatim>\<open>writer.close()\<close> and \<^verbatim>\<open>wait_closed()\<close> are taken to return.
\<close>

fun supervisor_step ::
  "loc \<times> AsyncClient \<Rightarrow> net_event \<Rightarrow> ((loc \<times> AsyncClient) \<times> effect list) option" where
  "supervisor_step (At_connect, c) Open_ok =
     Some ((At_read, c\<lparr>connected := True, writer := Some (opened c), opened := Suc (opened c)\<rparr>),
           [Open_connection])"
| "supervisor_step (At_connect, c) Open_fails =
     Some ((At_connect, c\<lparr>connected := False\<rparr>),
           Open_connection #
           (case writer c of None \<Rightarrow> [] | Some w \<Rightarrow> [Close_writer w]) @ [Sleep 5])"
| "supervisor_step (At_read, c) (Read_message m still) =
     Some ((if still then At_read else At_connect, c\<lparr>connected := still\<rparr>),
           [Handle_server_message m])"
| "supervisor_step (At_read, c) Read_incomplete = Some ((At_connect, c), [])"
| "supervisor_step (At_read, c) Read_exception = Some ((At_connect, c), [])"
| "supervisor_step cfg ev = None"

fun connect_to_server ::
  "net_event list \<Rightarrow> loc \<times> AsyncClient \<Rightarrow> ((loc \<times> AsyncClient) \<times> effect list) option" where
  "connect_to_server [] cfg = Some (cfg, [])"
| "connect_to_server (ev # evs) cfg =
     (case supervisor_step cfg ev of
        None \<Rightarrow> None
      | Some (cfg', eff) \<Rightarrow>
          (case connect_to_server evs cfg' of
             None \<Rightarrow> None
           | Some (cfg'', eff') \<Rightarrow> Some (cfg'', eff @ eff')))"

section \<open>Example data\<close>

text \<open>A machine with two windows, on which only the keys of \<open>f2_action\<close> can be pressed.\<close>

definition demo_world :: world where
  "demo_world = \<lparr>window_keys = [''window1'', ''window2''],
                  action_names = [''f1_action'', ''f2_action''],
                  mouse_ok = (\<lambda>w. True), keys_ok = (\<lambda>a. a = ''f2_action'')\<rparr>"

text \<open>Three windows, and four passes of the idle loop with a command arriving during the first.\<close>

definition demo_windows :: "string list" where
  "demo_windows = [''window1'', ''window2'', ''window3'']"

definition quiet_pass :: "real \<Rightarrow> idle_env" where
  "quiet_pass t = \<lparr>clock = t, focus_ok = True, focus_sleep_calls = [], cycle_sleep_calls = []\<rparr>"

definition demo_passes :: "idle_env list" where
  "demo_passes =
     [\<lparr>clock = 1000, focus_ok = True, focus_sleep_calls = [],
       cycle_sleep_calls = [Set_active_window (JStr ''window3'') 1005]\<rparr>,
      quiet_pass 1008, quiet_pass 1016, quiet_pass 1024]"

section \<open>Properties of the state machine\<close>

lemma apply_call_cooldown [simp]:
  "action_cooldown (apply_call fmt s c) = action_cooldown s"
  by (cases c) (simp_all add: set_active_window_def set_idle_def)

lemma apply_call_timeout [simp]:
  "idle_timeout (apply_call fmt s c) = idle_timeout s"
  by (cases c) (simp_all add: set_active_window_def set_idle_def)

lemma run_calls_cooldown [simp]:
  "action_cooldown (run_calls fmt s cs) = action_cooldown s"
  by (induction cs arbitrary: s) simp_all

lemma run_calls_timeout [simp]:
  "idle_timeout (run_calls fmt s cs) = idle_timeout s"
  by (induction cs arbitrary: s) simp_all

lemma run_calls_last_action_time:
  "last_action_time (run_calls fmt s cs) =
     (case most_recent_active cs of None \<Rightarrow> last_action_time s | Some t \<Rightarrow> t)"
proof (induction cs arbitrary: s)
  case Nil
  show ?case by simp
next
  case (Cons c cs)
  show ?case
    by (cases c; cases "most_recent_active cs")
       (simp_all add: Cons.IH set_active_window_def set_idle_def)
qed

lemma last_call_Cons_neq_None [simp]: "last_call (d # cs) \<noteq> None"
  by (induction cs arbitrary: d) simp_all

lemma run_calls_current_state:
  "current_state (run_calls fmt s cs) =
     (case last_call cs of
        None \<Rightarrow> current_state s
      | Some (Set_active_window w t) \<Rightarrow> ''active_'' @ fstring fmt w
      | Some Set_idle \<Rightarrow> ''idle'')"
proof (induction cs arbitrary: s rule: last_call.induct)
  case 1
  show ?case by simp
next
  case (2 c)
  show ?case by (cases c) (simp_all add: set_active_window_def set_idle_def)
next
  case (3 c d cs)
  have "run_calls fmt s (c # d # cs) = run_calls fmt (apply_call fmt s c) (d # cs)"
    by simp
  then show ?case
    using "3.IH" [of "apply_call fmt s c"] by (simp split: option.splits call.splits)
qed

lemma last_call_most_recent:
  "last_call cs = Some (Set_active_window w t) \<Longrightarrow> most_recent_active cs = Some t"
  by (induction cs rule: last_call.induct) (simp_all split: option.splits)

text \<open>
  C1. After any sequence of \<^verbatim>\<open>set_active_window\<close> / \<^verbatim>\<open>set_idle\<close> calls on a
  fresh StateManager, \<^verbatim>\<open>can_execute_action()\<close> is false exactly when fewer than
  \<open>action_cooldown\<close> = 2 seconds have passed since the most recent
  \<^verbatim>\<open>set_active_window\<close>, and true otherwise, also when there was none.
  \<^verbatim>\<open>last_action_time\<close> starts at 0 and \<^verbatim>\<open>time.time()\<close> counts seconds since
  1970, so the clock reading is at least 2.
\<close>

theorem can_execute_action_cooldown:
  assumes "2 \<le> now"
  shows "can_execute_action (run_calls fmt StateManager_init cs) now =
           (case most_recent_active cs of
              None \<Rightarrow> True
            | Some t \<Rightarrow> \<not> now - t < 2)"
proof -
  have cd: "action_cooldown (run_calls fmt StateManager_init cs) = 2"
    by (simp add: StateManager_init_def)
  show ?thesis
  proof (cases "most_recent_active cs")
    case None
    then have "last_action_time (run_calls fmt StateManager_init cs) = 0"
      by (simp add: run_calls_last_action_time StateManager_init_def)
    with cd assms None show ?thesis
      by (simp add: can_execute_action_def)
  next
    case (Some t)
    then have "last_action_time (run_calls fmt StateManager_init cs) = t"
      by (simp add: run_calls_last_action_time)
    with cd Some show ?thesis
      by (auto simp add: can_execute_action_def)
  qed
qed

theorem can_execute_action_cooldown_witness:
  "(2::real) \<le> 1000 \<and>
   \<not> can_execute_action
        (run_calls (\<lambda>v. ''?'') StateManager_init
           [Set_active_window (JStr ''window1'') 999, Set_idle]) 1000 \<and>
   can_execute_action
        (run_calls (\<lambda>v. ''?'') StateManager_init
           [Set_active_window (JStr ''window1'') 998, Set_idle]) 1000 \<and>
   can_execute_action (run_calls (\<lambda>v. ''?'') StateManager_init [Set_idle]) 1000"
proof -
  have h: "(2::real) \<le> 1000" by simp
  show ?thesis
    using can_execute_action_cooldown [OF h, of "\<lambda>v. ''?''"
            "[Set_active_window (JStr ''window1'') 999, Set_idle]"]
          can_execute_action_cooldown [OF h, of "\<lambda>v. ''?''"
            "[Set_active_window (JStr ''window1'') 998, Set_idle]"]
          can_execute_action_cooldown [OF h, of "\<lambda>v. ''?''" "[Set_idle]"]
    by simp
qed

text \<open>
  C2. \<^verbatim>\<open>should_return_to_idle()\<close> is true if and only if the state is not idle
  and at least \<open>idle_timeout\<close> has passed since \<open>last_action_time\<close>; in the idle
  state it is false whatever the clock reads. After any sequence of transitions on a
  fresh StateManager this means: the last call was a \<^verbatim>\<open>set_active_window\<close>, made
  at least 10 seconds ago.
\<close>

theorem should_return_to_idle_iff:
  "should_return_to_idle s now =
     (\<not> is_idle s \<and> idle_timeout s \<le> now - last_action_time s) \<and>
   (is_idle s \<longrightarrow> \<not> should_return_to_idle s now) \<and>
   should_return_to_idle (run_calls fmt StateManager_init cs) now =
     (case last_call cs of
        Some (Set_active_window w t) \<Rightarrow> 10 \<le> now - t
      | _ \<Rightarrow> False)"
proof -
  let ?s = "run_calls fmt StateManager_init cs"
  have a: "should_return_to_idle s now =
             (\<not> is_idle s \<and> idle_timeout s \<le> now - last_action_time s)"
    by (simp add: should_return_to_idle_def)
  have b: "is_idle s \<longrightarrow> \<not> should_return_to_idle s now"
    by (simp add: should_return_to_idle_def)
  have to: "idle_timeout ?s = 10"
    by (simp add: StateManager_init_def)
  have c: "should_return_to_idle ?s now =
             (case last_call cs of
                Some (Set_active_window w t) \<Rightarrow> 10 \<le> now - t
              | _ \<Rightarrow> False)"
  proof (cases "last_call cs")
    case None
    then have "current_state ?s = ''idle''"
      by (simp add: run_calls_current_state StateManager_init_def)
    with None show ?thesis
      by (simp add: should_return_to_idle_def is_idle_def)
  next
    case (Some c)
    show ?thesis
    proof (cases c)
      case (Set_active_window w t)
      with Some have lc: "last_call cs = Some (Set_active_window w t)" by simp
      then have "current_state ?s = ''active_'' @ fstring fmt w"
        by (simp add: run_calls_current_state)
      then have ni: "\<not> is_idle ?s"
        by (simp add: is_idle_def)
      have "last_action_time ?s = t"
        using last_call_most_recent [OF lc] by (simp add: run_calls_last_action_time)
      with ni to lc show ?thesis
        by (simp add: should_return_to_idle_def)
    next
      case Set_idle
      with Some have lc: "last_call cs = Some Set_idle" by simp
      then have "current_state ?s = ''idle''"
        by (simp add: run_calls_current_state)
      with lc show ?thesis
        by (simp add: should_return_to_idle_def is_idle_def)
    qed
  qed
  from a b c show ?thesis by blast
qed

theorem should_return_to_idle_iff_witness:
  "is_idle (set_idle StateManager_init) \<and>
   \<not> should_return_to_idle (set_idle StateManager_init) 5000 \<and>
   should_return_to_idle
     (run_calls (\<lambda>v. ''?'') StateManager_init
        [Set_idle, Set_active_window (JStr ''window2'') 990]) 1000 \<and>
   \<not> should_return_to_idle
     (run_calls (\<lambda>v. ''?'') StateManager_init
        [Set_idle, Set_active_window (JStr ''window2'') 991]) 1000"
proof -
  have i: "is_idle (set_idle StateManager_init)"
    by (simp add: is_idle_def set_idle_def)
  show ?thesis
    using i
          should_return_to_idle_iff [of "set_idle StateManager_init" 5000 "\<lambda>v. ''?''" "[]"]
          should_return_to_idle_iff [of StateManager_init 1000 "\<lambda>v. ''?''"
            "[Set_idle, Set_active_window (JStr ''window2'') 990]"]
          should_return_to_idle_iff [of StateManager_init 1000 "\<lambda>v. ''?''"
            "[Set_idle, Set_active_window (JStr ''window2'') 991]"]
    by simp
qed

text \<open>
  C9. \<^verbatim>\<open>set_idle\<close> writes \<open>current_state\<close> and \<open>active_window\<close> only:
  \<open>last_action_time\<close>, \<open>action_cooldown\<close> and \<open>idle_timeout\<close> keep their values, so
  once an active state has gone back to idle \<^verbatim>\<open>can_execute_action()\<close> still
  measures the cooldown from the most recent \<^verbatim>\<open>set_active_window\<close>.
\<close>

theorem set_idle_frame:
  "set_idle s = s\<lparr>current_state := ''idle'', active_window := None\<rparr> \<and>
   last_action_time (set_idle s) = last_action_time s \<and>
   action_cooldown (set_idle s) = action_cooldown s \<and>
   idle_timeout (set_idle s) = idle_timeout s \<and>
   can_execute_action (set_idle s) now = can_execute_action s now \<and>
   can_execute_action (set_idle (set_active_window fmt s w t)) now =
     (action_cooldown s \<le> now - t)"
  by (simp add: set_idle_def set_active_window_def can_execute_action_def)

section \<open>Properties of the frame codec\<close>

lemma base256_digits:
  assumes "n < 2 ^ 32"
  shows "((n div 16777216 mod 256 * 256 + n div 65536 mod 256) * 256 + n div 256 mod 256) * 256
           + n mod 256 = (n::nat)"
proof -
  let ?c = "n div 256" and ?b = "n div 65536" and ?a = "n div 16777216"
  have ab: "?a = ?b div 256" by (simp add: div_mult2_eq)
  have bc: "?b = ?c div 256" by (simp add: div_mult2_eq)
  have "?a < 256" using assms by simp
  then have "?a mod 256 * 256 + ?b mod 256 = ?b div 256 * 256 + ?b mod 256"
    by (simp add: ab)
  also have "\<dots> = ?b" by (rule div_mult_mod_eq)
  finally have 1: "?a mod 256 * 256 + ?b mod 256 = ?b" .
  have "?b * 256 + ?c mod 256 = ?c div 256 * 256 + ?c mod 256" by (simp add: bc)
  also have "\<dots> = ?c" by (rule div_mult_mod_eq)
  finally have 2: "?b * 256 + ?c mod 256 = ?c" .
  have 3: "?c * 256 + n mod 256 = n" by (rule div_mult_mod_eq)
  show ?thesis by (simp only: 1 2 3)
qed

lemma to_bytes4_Inr:
  "n < 2 ^ 32 \<Longrightarrow>
     to_bytes4 n = Inr [word_of_nat (n div 2 ^ 24), word_of_nat (n div 2 ^ 16),
                        word_of_nat (n div 2 ^ 8), word_of_nat n]"
  by (simp add: to_bytes4_def)

lemma from_bytes_to_bytes4:
  assumes "n < 2 ^ 32"
  shows "from_bytes [word_of_nat (n div 2 ^ 24), word_of_nat (n div 2 ^ 16),
                     word_of_nat (n div 2 ^ 8), word_of_nat n] = n"
proof -
  have "from_bytes [word_of_nat (n div 2 ^ 24), word_of_nat (n div 2 ^ 16),
                     word_of_nat (n div 2 ^ 8), word_of_nat n :: byte]
        = ((n div 16777216 mod 256 * 256 + n div 65536 mod 256) * 256 + n div 256 mod 256) * 256
           + n mod 256"
    by (simp add: from_bytes_def unat_of_nat)
  also have "\<dots> = n" using assms by (rule base256_digits)
  finally show ?thesis .
qed

text \<open>
  C3. For every payload of fewer than \<open>2 ^ 32\<close> bytes, the empty one included, the
  frame is the 4-byte big-endian length followed by the payload, and reading a stream
  that starts with the frame gives back exactly the payload and leaves the rest of the
  stream.
\<close>

theorem frame_round_trip:
  assumes "length P < 2 ^ 32"
  shows "case frame P of
           Inl e \<Rightarrow> False
         | Inr data \<Rightarrow>
             length data = 4 + length P \<and> drop 4 data = P \<and>
             from_bytes (take 4 data) = length P \<and>
             read_message (data @ rest) = Message P rest"
proof -
  let ?n = "length P"
  let ?pre = "[word_of_nat (?n div 2 ^ 24), word_of_nat (?n div 2 ^ 16),
               word_of_nat (?n div 2 ^ 8), word_of_nat ?n] :: byte list"
  have f: "frame P = Inr (?pre @ P)"
    by (simp add: frame_def to_bytes4_Inr [OF assms])
  have fb: "from_bytes ?pre = ?n"
    by (rule from_bytes_to_bytes4 [OF assms])
  have r4: "readexactly 4 ((?pre @ P) @ rest) = Inr (?pre, P @ rest)"
    by (simp add: readexactly_def)
  have rn: "readexactly ?n (P @ rest) = Inr (P, rest)"
    by (simp add: readexactly_def)
  have "read_message ((?pre @ P) @ rest) = Message P rest"
    unfolding read_message_def r4 using fb by (simp add: rn)
  with f fb show ?thesis by simp
qed

theorem frame_round_trip_witness:
  "length [104, 105 :: byte] < 2 ^ 32 \<and>
   frame [104, 105] = Inr [0, 0, 0, 2, 104, 105] \<and>
   read_message [0, 0, 0, 2, 104, 105, 7] = Message [104, 105] [7] \<and> 
   frame [] = Inr [0, 0, 0, 0] \<and> read_message [0, 0, 0, 0] = Message [] []"
proof -
  have h: "length [104, 105 :: byte] < 2 ^ 32" by simp
  have h0: "length ([] :: byte list) < 2 ^ 32" by simp
  have f: "frame [104, 105] = Inr [0, 0, 0, 2, 104, 105]"
    by (simp add: frame_def to_bytes4_def)
  have f0: "frame [] = Inr [0, 0, 0, 0]"
    by (simp add: frame_def to_bytes4_def)
  show ?thesis
    using h frame_round_trip [OF h, of "[7]"] frame_round_trip [OF h0, of "[]"]
    by (simp add: f f0)
qed

section \<open>Properties of the command handler\<close>




text \<open>
  C4. An execute command (a dict whose \<open>command\<close> is \<open>execute\<close> and whose \<open>window\<close> is
  truthy) that arrives while \<^verbatim>\<open>can_execute_action()\<close> is false is answered with
  status \<open>cooldown\<close>, the window and the action (\<open>f1_action\<close> when the command names
  none), and the StateManager is returned as it was.
\<close>

theorem handle_server_message_cooldown:
  assumes "loads message = Some (JObj kvs)"
    and "dict_get kvs ''command'' JNull = JStr ''execute''"
    and "truthy (dict_get kvs ''window'' JNull)"
    and "\<not> can_execute_action s t_check"
  shows "handle_server_message loads fmt wd s message t_check t_set =
           (s, Some (JObj [(''status'', JStr ''cooldown''),
                           (''window'', dict_get kvs ''window'' JNull),
                           (''action'', dict_get kvs ''action'' (JStr ''f1_action''))]))"
  using assms by (simp add: handle_server_message_def cooldown_response_def Let_def)

theorem handle_server_message_cooldown_witness:
  "handle_server_message
     (\<lambda>m. Some (JObj [(''command'', JStr ''execute''), (''window'', JStr ''window1'')]))
     (\<lambda>v. ''?'') demo_world
     (set_active_window (\<lambda>v. ''?'') StateManager_init (JStr ''window1'') 1000)
     ''msg'' (2001 / 2) (2001 / 2) =
   (set_active_window (\<lambda>v. ''?'') StateManager_init (JStr ''window1'') 1000,
    Some (JObj [(''status'', JStr ''cooldown''), (''window'', JStr ''window1''),
                (''action'', JStr ''f1_action'')]))"
proof -
  let ?kvs = "[(''command'', JStr ''execute''), (''window'', JStr ''window1'')]"
  let ?s = "set_active_window (\<lambda>v. ''?'') StateManager_init (JStr ''window1'') 1000"
  have 2: "dict_get ?kvs ''command'' JNull = JStr ''execute''"
    by (simp add: dict_get_def)
  have 3: "truthy (dict_get ?kvs ''window'' JNull)"
    by (simp add: dict_get_def)
  have 4: "\<not> can_execute_action ?s (2001 / 2)"
    by (simp add: can_execute_action_def set_active_window_def StateManager_init_def)
  show ?thesis
    using 2 3 4
      handle_server_message_cooldown [where loads = "\<lambda>m. Some (JObj ?kvs)" and kvs = ?kvs
        and message = "''msg''" and s = ?s and t_check = "2001 / 2" and t_set = "2001 / 2"
        and fmt = "\<lambda>v. ''?''" and wd = demo_world]
    by (simp add: dict_get_def)
qed




text \<open>
  C10. A message that is not an execute command (\<^verbatim>\<open>json.loads\<close> raises, or the value
  is no dict, or its \<open>command\<close> is not \<open>execute\<close>, or its \<open>window\<close> is missing, empty or
  otherwise falsy) gets no response, and the StateManager is returned as it was.
\<close>

theorem handle_server_message_ignored:
  assumes "\<not> (\<exists>kvs. loads message = Some (JObj kvs) \<and>
                  dict_get kvs ''command'' JNull = JStr ''execute'' \<and>
                  truthy (dict_get kvs ''window'' JNull))"
  shows "handle_server_message loads fmt wd s message t_check t_set = (s, None)"
proof (cases "loads message")
  case None
  then show ?thesis by (simp add: handle_server_message_def)
next
  case (Some v)
  show ?thesis
  proof (cases v)
    case (JObj kvs)
    with Some assms
    have "\<not> (dict_get kvs ''command'' JNull = JStr ''execute'' \<and>
              truthy (dict_get kvs ''window'' JNull))"
      by simp
    with Some JObj show ?thesis
      by (auto simp add: handle_server_message_def Let_def)
  qed (simp_all add: Some handle_server_message_def)
qed

theorem handle_server_message_ignored_witness:
  "handle_server_message (\<lambda>m. None) (\<lambda>v. ''?'') demo_world StateManager_init
     ''{'' 1000 1000 = (StateManager_init, None) \<and>
   handle_server_message (\<lambda>m. Some (JArr [JStr ''execute''])) (\<lambda>v. ''?'') demo_world
     StateManager_init ''msg'' 1000 1000 = (StateManager_init, None) \<and>
   handle_server_message
     (\<lambda>m. Some (JObj [(''command'', JStr ''status''), (''window'', JStr ''window1'')]))
     (\<lambda>v. ''?'') demo_world StateManager_init ''msg'' 1000 1000 = (StateManager_init, None) \<and>
   handle_server_message
     (\<lambda>m. Some (JObj [(''command'', JStr ''execute'')]))
     (\<lambda>v. ''?'') demo_world StateManager_init ''msg'' 1000 1000 = (StateManager_init, None) \<and>
   handle_server_message
     (\<lambda>m. Some (JObj [(''command'', JStr ''execute''), (''window'', JStr [])]))
     (\<lambda>v. ''?'') demo_world StateManager_init ''msg'' 1000 1000 = (StateManager_init, None)"
  using
    handle_server_message_ignored [where loads = "\<lambda>m. None" and message = "''{''"
      and fmt = "\<lambda>v. ''?''" and wd = demo_world and s = StateManager_init
      and t_check = 1000 and t_set = 1000]
    handle_server_message_ignored [where loads = "\<lambda>m. Some (JArr [JStr ''execute''])"
      and message = "''msg''"
      and fmt = "\<lambda>v. ''?''" and wd = demo_world and s = StateManager_init
      and t_check = 1000 and t_set = 1000]
    handle_server_message_ignored [where loads =
        "\<lambda>m. Some (JObj [(''command'', JStr ''status''), (''window'', JStr ''window1'')])"
      and message = "''msg''"
      and fmt = "\<lambda>v. ''?''" and wd = demo_world and s = StateManager_init
      and t_check = 1000 and t_set = 1000]
    handle_server_message_ignored [where loads =
        "\<lambda>m. Some (JObj [(''command'', JStr ''execute'')])"
      and message = "''msg''"
      and fmt = "\<lambda>v. ''?''" and wd = demo_world and s = StateManager_init
      and t_check = 1000 and t_set = 1000]
    handle_server_message_ignored [where loads =
        "\<lambda>m. Some (JObj [(''command'', JStr ''execute''), (''window'', JStr [])])"
      and message = "''msg''"
      and fmt = "\<lambda>v. ''?''" and wd = demo_world and s = StateManager_init
      and t_check = 1000 and t_set = 1000]
  by (simp add: dict_get_def)

section \<open>Properties of the idle loop\<close>

lemma idle_iteration_cursor:
  assumes "idle_iteration fmt windows e (s, idx) = ((s', idx'), sel)"
  shows "(sel = [] \<and> idx' = idx) \<or>
         (\<exists>b. sel = [(windows ! (idx mod length windows), b)] \<and>
              idx' = (idx + 1) mod length windows)"
  using assms by (auto simp add: idle_iteration_def Let_def split: if_splits)

lemma idle_loop_cursor:
  assumes "idle_loop fmt windows es (s, idx) = ((s', idx'), sel)"
  shows "idx' mod length windows = (idx + length sel) mod length windows \<and>
         (sel = [] \<longrightarrow> idx' = idx) \<and>
         (sel \<noteq> [] \<longrightarrow> idx' = (idx + length sel) mod length windows) \<and>
         map fst sel =
           map (\<lambda>k. windows ! ((idx + k) mod length windows)) [0..<length sel]"
  using assms
proof (induction es arbitrary: s idx s' idx' sel)
  case Nil
  then show ?case by simp
next
  case (Cons e es)
  let ?N = "length windows"
  obtain s1 idx1 sel1 where it: "idle_iteration fmt windows e (s, idx) = ((s1, idx1), sel1)"
    by (metis prod.exhaust)
  obtain c2 sel2 where lp: "idle_loop fmt windows es (s1, idx1) = (c2, sel2)"
    by (metis prod.exhaust)
  from Cons.prems it lp have c2: "c2 = (s', idx')" and sel: "sel = sel1 @ sel2"
    by simp_all
  note ih = Cons.IH [OF lp [unfolded c2]]
  from idle_iteration_cursor [OF it] show ?case
  proof
    assume "sel1 = [] \<and> idx1 = idx"
    with ih sel show ?thesis by simp
  next
    assume "\<exists>b. sel1 = [(windows ! (idx mod ?N), b)] \<and> idx1 = (idx + 1) mod ?N"
    then obtain b where s1: "sel1 = [(windows ! (idx mod ?N), b)]"
      and i1: "idx1 = (idx + 1) mod ?N" by blast
    have shift: "(Suc idx mod ?N + k) mod ?N = Suc (idx + k) mod ?N" for k
      using mod_add_left_eq [of "Suc idx" ?N k] by simp
    have len: "length sel = Suc (length sel2)"
      by (simp add: sel s1)
    have a: "idx' mod ?N = (idx + length sel) mod ?N"
      using ih by (simp add: i1 len shift)
    have c: "idx' = (idx + length sel) mod ?N"
    proof (cases "sel2 = []")
      case True
      with ih have "idx' = idx1" by simp
      with True show ?thesis by (simp add: i1 len)
    next
      case False
      with ih have "idx' = (idx1 + length sel2) mod ?N" by simp
      then show ?thesis by (simp add: i1 len shift)
    qed
    have "map fst sel = windows ! (idx mod ?N) #
            map (\<lambda>k. windows ! ((idx1 + k) mod ?N)) [0..<length sel2]"
      using ih by (simp add: sel s1)
    also have "\<dots> = map (\<lambda>k. windows ! ((idx + k) mod ?N)) [0..<Suc (length sel2)]"
      by (simp add: map_upt_Suc i1 shift del: upt_Suc)
    finally have d: "map fst sel =
        map (\<lambda>k. windows ! ((idx + k) mod ?N)) [0..<length sel]"
      by (simp only: len)
    have ne: "sel \<noteq> []"
      by (simp add: sel s1)
    from a c d ne show ?thesis by blast
  qed
qed

text \<open>
  C6. Over a non-empty list of \<open>N\<close> windows, \<^verbatim>\<open>start_idle_mode\<close> starts with the
  cursor at 0, and whatever the command handler does in between, the passes that select
  a window select \<open>windows[0]\<close>, \<open>windows[1]\<close>, ... in turn, wrapping modulo \<open>N\<close>, each
  pass moving the cursor one step. So after exactly \<open>N\<close> advances every window has been
  selected once, in order, and the cursor is 0 again; after fewer (and at least one) it is
  not.
\<close>

theorem cursor_round_robin:
  assumes "windows \<noteq> []"
    and "start_idle_mode fmt windows es s = ((s', idx'), sel)"
  shows "idx' = length sel mod length windows \<and>
         map fst sel = map (\<lambda>k. windows ! (k mod length windows)) [0..<length sel] \<and>
         (length sel = length windows \<longrightarrow> idx' = 0 \<and> map fst sel = windows) \<and>
         (0 < length sel \<and> length sel < length windows \<longrightarrow> idx' \<noteq> 0)"
proof -
  let ?N = "length windows"
  from assms(2) have lp: "idle_loop fmt windows es (set_idle s, 0) = ((s', idx'), sel)"
    by (simp add: start_idle_mode_def)
  note c = idle_loop_cursor [OF lp]
  have N: "0 < ?N" using assms(1) by simp
  have a: "idx' = length sel mod ?N"
  proof (cases "sel = []")
    case True
    with c show ?thesis by simp
  next
    case False
    with c show ?thesis by simp
  qed
  have b: "map fst sel = map (\<lambda>k. windows ! (k mod ?N)) [0..<length sel]"
    using c by simp
  have full: "map (\<lambda>k. windows ! (k mod ?N)) [0..<?N] = windows"
  proof -
    have "map (\<lambda>k. windows ! (k mod ?N)) [0..<?N] = map (\<lambda>k. windows ! k) [0..<?N]"
      by (rule map_cong) simp_all
    also have "\<dots> = windows" by (rule map_nth)
    finally show ?thesis .
  qed
  have d: "length sel = ?N \<longrightarrow> idx' = 0 \<and> map fst sel = windows"
    using a b full by simp
  have e: "0 < length sel \<and> length sel < ?N \<longrightarrow> idx' \<noteq> 0"
    using a by simp
  from a b d e show ?thesis by blast
qed

lemma demo_passes_run:
  "start_idle_mode (\<lambda>v. ''?'') demo_windows demo_passes StateManager_init =
     ((set_idle StateManager_init\<lparr>last_action_time := 1005\<rparr>, 0),
      [(''window1'', True), (''window2'', True), (''window3'', True)])"
  by (simp add: start_idle_mode_def demo_passes_def demo_windows_def quiet_pass_def
        idle_iteration_def should_return_to_idle_def is_idle_def set_idle_def
        set_active_window_def StateManager_init_def fstring_def Let_def)

theorem cursor_round_robin_witness:
  "demo_windows \<noteq> [] \<and>
   start_idle_mode (\<lambda>v. ''?'') demo_windows demo_passes StateManager_init =
     ((set_idle StateManager_init\<lparr>last_action_time := 1005\<rparr>, 0),
      [(''window1'', True), (''window2'', True), (''window3'', True)]) \<and>
   map fst [(''window1'', True), (''window2'', True), (''window3'', True)] = demo_windows"
proof -
  have ne: "demo_windows \<noteq> []" by (simp add: demo_windows_def)
  show ?thesis
    using ne demo_passes_run cursor_round_robin [OF ne demo_passes_run]
    by (simp add: demo_windows_def)
qed

section \<open>Properties of the broadcast\<close>

lemma send_loop_eq:
  "send_loop write_ok xs (clients, sent, disc) =
     (clients, sent @ filter write_ok xs, disc @ filter (\<lambda>d. \<not> write_ok d) xs)"
  by (induction xs arbitrary: sent disc) simp_all

lemma filter_eq_single:
  "distinct xs \<Longrightarrow> c \<in> set xs \<Longrightarrow> filter (\<lambda>d. d = c) xs = [c]"
proof (induction xs)
  case Nil
  then show ?case by simp
next
  case (Cons x xs)
  show ?case
  proof (cases "x = c")
    case True
    with Cons.prems have "c \<notin> set xs" by simp
    then have "filter (\<lambda>d. d = c) xs = []" by (auto simp add: filter_empty_conv)
    with True show ?thesis by simp
  next
    case False
    with Cons show ?thesis by simp
  qed
qed

lemma one_failure_filters:
  assumes "distinct clients" and "c \<in> set clients" and "\<not> write_ok c"
    and "\<forall>d\<in>set clients. d \<noteq> c \<longrightarrow> write_ok d"
  shows "filter write_ok clients = remove1 c clients"
    and "filter (\<lambda>d. \<not> write_ok d) clients = [c]"
proof -
  have ok: "write_ok d = (d \<noteq> c)" if "d \<in> set clients" for d
    using that assms(3,4) by blast
  have "filter write_ok clients = filter (\<lambda>d. d \<noteq> c) clients"
    by (rule filter_cong) (simp_all add: ok)
  also have "\<dots> = removeAll c clients"
    by (induction clients) auto
  also have "\<dots> = remove1 c clients"
    using assms(1) by (simp add: distinct_remove1_removeAll)
  finally show "filter write_ok clients = remove1 c clients" .
  have "filter (\<lambda>d. \<not> write_ok d) clients = filter (\<lambda>d. d = c) clients"
    by (rule filter_cong) (simp_all add: ok)
  also have "\<dots> = [c]"
    using assms(1,2) by (rule filter_eq_single)
  finally show "filter (\<lambda>d. \<not> write_ok d) clients = [c]" .
qed

lemma send_to_all_clients_all_ok:
  assumes "\<forall>d\<in>set clients. write_ok d" and "frame m = Inr data"
  shows "send_to_all_clients write_ok clients m = Inr (clients, map (\<lambda>d. (d, data)) clients)"
proof -
  have 1: "filter write_ok clients = clients"
    using assms(1) by (simp add: filter_id_conv)
  have 2: "filter (\<lambda>d. \<not> write_ok d) clients = []"
    using assms(1) by (simp add: filter_empty_conv)
  show ?thesis
    by (simp add: send_to_all_clients_def assms(2) send_loop_eq 1 2)
qed

text \<open>
  C7. A broadcast to \<open>k\<close> distinct registered clients of which exactly one, \<open>c\<close>, fails
  its write: the \<^verbatim>\<open>for\<close> loop over the registry leaves the registry as it was,
  writes to the other clients and collects \<open>c\<close>; only the second loop removes \<open>c\<close>. The
  registry afterwards is the other \<open>k - 1\<close> clients, in their order, and a later
  broadcast writes its frame to each of them.
\<close>

theorem send_to_all_clients_one_failure:
  assumes "distinct clients" and "c \<in> set clients" and "\<not> write_ok c"
    and "\<forall>d\<in>set clients. d \<noteq> c \<longrightarrow> write_ok d"
    and "frame m = Inr data" and "frame m2 = Inr data2"
    and "\<forall>d\<in>set (remove1 c clients). write_ok2 d"
  shows "send_loop write_ok clients (clients, [], []) = (clients, remove1 c clients, [c]) \<and>
         send_to_all_clients write_ok clients m =
           Inr (remove1 c clients, map (\<lambda>d. (d, data)) (remove1 c clients)) \<and>
         length (remove1 c clients) = length clients - 1 \<and>
         set (remove1 c clients) = set clients - {c} \<and>
         send_to_all_clients write_ok2 (remove1 c clients) m2 =
           Inr (remove1 c clients, map (\<lambda>d. (d, data2)) (remove1 c clients))"
proof -
  note f = one_failure_filters [OF assms(1-4)]
  have ne: "clients \<noteq> []" using assms(2) by auto
  have a: "send_loop write_ok clients (clients, [], []) = (clients, remove1 c clients, [c])"
    by (simp add: send_loop_eq f)
  have b: "send_to_all_clients write_ok clients m =
             Inr (remove1 c clients, map (\<lambda>d. (d, data)) (remove1 c clients))"
    using ne assms(2) by (simp add: send_to_all_clients_def assms(5) a)
  have c: "length (remove1 c clients) = length clients - 1"
    using assms(2) by (simp add: length_remove1)
  have d: "set (remove1 c clients) = set clients - {c}"
    using assms(1) by simp
  have e: "send_to_all_clients write_ok2 (remove1 c clients) m2 =
             Inr (remove1 c clients, map (\<lambda>d. (d, data2)) (remove1 c clients))"
    using assms(7,6) by (rule send_to_all_clients_all_ok)
  from a b c d e show ?thesis by blast
qed

theorem send_to_all_clients_one_failure_witness:
  "send_loop (\<lambda>d. d \<noteq> 2) [1, 2, 3 :: nat] ([1, 2, 3], [], []) = ([1, 2, 3], [1, 3], [2]) \<and>
   send_to_all_clients (\<lambda>d. d \<noteq> 2) [1, 2, 3 :: nat] [104, 105] =
     Inr ([1, 3], [(1, [0, 0, 0, 2, 104, 105]), (3, [0, 0, 0, 2, 104, 105])]) \<and>
   send_to_all_clients (\<lambda>d. True) [1, 3 :: nat] [111] =
     Inr ([1, 3], [(1, [0, 0, 0, 1, 111]), (3, [0, 0, 0, 1, 111])])"
proof -
  have 1: "distinct [1, 2, 3 :: nat]" by simp
  have 2: "(2 :: nat) \<in> set [1, 2, 3]" by simp
  have 3: "\<not> (\<lambda>d :: nat. d \<noteq> 2) 2" by simp
  have 4: "\<forall>d\<in>set [1, 2, 3 :: nat]. d \<noteq> 2 \<longrightarrow> (\<lambda>d. d \<noteq> 2) d" by simp
  have 5: "frame [104, 105] = Inr [0, 0, 0, 2, 104, 105]"
    by (simp add: frame_def to_bytes4_def)
  have 6: "frame [111] = Inr [0, 0, 0, 1, 111]"
    by (simp add: frame_def to_bytes4_def)
  have 7: "\<forall>d\<in>set (remove1 2 [1, 2, 3 :: nat]). (\<lambda>d. True) d" by simp
  show ?thesis
    using send_to_all_clients_one_failure [OF 1 2 3 4 5 6 7] by simp
qed

section \<open>Behaviour of the connection loop\<close>

text \<open>
  C8. When the connection drops while connected (\<^verbatim>\<open>readexactly\<close> raises), the inner
  \<^verbatim>\<open>except\<close> breaks out of the read loop and the outer loop goes straight back to
  \<^verbatim>\<open>open_connection\<close>: \<^verbatim>\<open>self.connected\<close> stays true, the writer is not closed and
  nothing sleeps. Only a failing \<^verbatim>\<open>open_connection\<close> reaches the code that clears
  \<^verbatim>\<open>self.connected\<close>, closes the writer and sleeps 5 seconds.
\<close>

theorem connect_to_server_drop:
  "supervisor_step (At_read, c) Read_incomplete = Some ((At_connect, c), []) \<and>
   supervisor_step (At_read, c) Read_exception = Some ((At_connect, c), []) \<and>
   connect_to_server [Open_ok, Read_incomplete] (At_connect, AsyncClient_init) =
     Some ((At_connect, \<lparr>connected = True, writer = Some 0, opened = 1\<rparr>),
           [Open_connection]) \<and>
   connect_to_server [Open_ok, Read_incomplete, Open_ok] (At_connect, AsyncClient_init) =
     Some ((At_read, \<lparr>connected = True, writer = Some 1, opened = 2\<rparr>),
           [Open_connection, Open_connection]) \<and>
   connect_to_server [Open_ok, Read_incomplete, Open_fails, Open_fails]
       (At_connect, AsyncClient_init) =
     Some ((At_connect, \<lparr>connected = False, writer = Some 0, opened = 1\<rparr>),
           [Open_connection, Open_connection, Close_writer 0, Sleep 5,
            Open_connection, Close_writer 0, Sleep 5])"
  by (simp add: AsyncClient_init_def)

end
